theory Spec2Isabelle
  imports Main "HOL-Library.Sublist"
begin

section \<open>A shallow embedding of the vue-mini template compiler\<close>

text \<open>
  The two source units are \<^verbatim>\<open>packages/compiler-core/src/parse.ts\<close> (the template parser)
  and \<^verbatim>\<open>packages/compiler-core/src/compile.ts\<close> (the transform pipeline).

  Conventions of the embedding:
  \<^item> a JavaScript string is a \<open>string\<close>; a \<open>char\<close> is one code unit, so the model covers
    the templates whose code units are below 256 (ASCII and Latin-1);
  \<^item> the JavaScript value \<^verbatim>\<open>undefined\<close> is \<open>None\<close>; a property an object does not have
    reads as \<^verbatim>\<open>undefined\<close>;
  \<^item> a thrown exception is \<open>Inl\<close> of an \<open>error\<close>; a call that never returns is \<open>None\<close>
    of the outer \<open>option\<close> of a \<^theory_text>\<open>partial_function\<close>;
  \<^item> a mutated object is passed in and returned updated;
  \<^item> the calls of \<^verbatim>\<open>console.log\<close> are left out.
\<close>

subsection \<open>The built-in string operations the parser uses\<close>

definition js_index :: "string \<Rightarrow> nat \<Rightarrow> char option" where
  \<comment> \<open>\<^verbatim>\<open>s[i]\<close>: out of range reads as \<^verbatim>\<open>undefined\<close>.\<close>
  "js_index s i = (if i < length s then Some (s ! i) else None)"

definition js_startsWith :: "string \<Rightarrow> string \<Rightarrow> bool" where
  \<comment> \<open>\<^verbatim>\<open>String.prototype.startsWith\<close>\<close>
  "js_startsWith s searchString = prefix searchString s"

definition js_slice :: "string \<Rightarrow> int \<Rightarrow> int \<Rightarrow> string" where
  \<comment> \<open>\<^verbatim>\<open>s.slice(start, end)\<close>: a negative index counts from the end, both are clamped.\<close>
  "js_slice s start fin =
     (let len = int (length s);
          from = (if start < 0 then max (len + start) 0 else min start len);
          to = (if fin < 0 then max (len + fin) 0 else min fin len)
      in take (nat (to - from)) (drop (nat from) s))"

definition js_slice_from :: "string \<Rightarrow> int \<Rightarrow> string" where
  \<comment> \<open>\<^verbatim>\<open>s.slice(start)\<close>\<close>
  "js_slice_from s start = js_slice s start (int (length s))"

fun find_from :: "string \<Rightarrow> string \<Rightarrow> nat \<Rightarrow> int" where
  "find_from pat [] k = (if pat = [] then int k else - 1)"
| "find_from pat (c # cs) k = (if prefix pat (c # cs) then int k else find_from pat cs (Suc k))"

definition js_indexOf :: "string \<Rightarrow> string \<Rightarrow> int \<Rightarrow> int" where
  \<comment> \<open>\<^verbatim>\<open>s.indexOf(searchString, position)\<close>: the first index at or after the clamped
      position where the search string occurs, \<open>-1\<close> when there is none.\<close>
  "js_indexOf s searchString position =
     (let start = nat (min (max position 0) (int (length s)))
      in find_from searchString (drop start s) start)"

definition isUpper :: "char \<Rightarrow> bool" where
  "isUpper c =
     (let n = (of_char c :: nat)
      in (65 \<le> n \<and> n \<le> 90) \<or> (192 \<le> n \<and> n \<le> 222 \<and> n \<noteq> 215))"

definition toLowerCase_char :: "char \<Rightarrow> char" where
  "toLowerCase_char c = (if isUpper c then char_of (of_char c + (32::nat)) else c)"

definition js_toLowerCase :: "string \<Rightarrow> string" where
  \<comment> \<open>\<^verbatim>\<open>String.prototype.toLowerCase\<close> on code units below 256.\<close>
  "js_toLowerCase s = map toLowerCase_char s"

definition isWhiteSpace :: "char \<Rightarrow> bool" where
  "isWhiteSpace c = ((of_char c :: nat) \<in> {9, 10, 11, 12, 13, 32, 160})"

definition js_trim :: "string \<Rightarrow> string" where
  \<comment> \<open>\<^verbatim>\<open>String.prototype.trim\<close>\<close>
  "js_trim s = rev (dropWhile isWhiteSpace (rev (dropWhile isWhiteSpace s)))"

definition isLetter :: "char \<Rightarrow> bool" where
  \<comment> \<open>The class \<^verbatim>\<open>[a-z]\<close> under the flag \<^verbatim>\<open>i\<close>: the ASCII letters.\<close>
  "isLetter c =
     (let n = (of_char c :: nat) in (65 \<le> n \<and> n \<le> 90) \<or> (97 \<le> n \<and> n \<le> 122))"

definition test_letter :: "char option \<Rightarrow> bool" where
  \<comment> \<open>\<^verbatim>\<open>/[a-z]/i.test(x)\<close> for \<open>x\<close> a character read by index. The method converts its
      argument to a string first, and \<^verbatim>\<open>undefined\<close> becomes the text "undefined", which
      holds letters: on \<^verbatim>\<open>undefined\<close> the test succeeds.\<close>
  "test_letter x = (case x of None \<Rightarrow> True | Some c \<Rightarrow> isLetter c)"

definition isTagNameChar :: "char \<Rightarrow> bool" where
  \<comment> \<open>The class \<^verbatim>\<open>[^\r\n\t\f />]\<close>\<close>
  "isTagNameChar c =
     (c \<notin> set [CHR 0x0D, CHR 0x0A, CHR 0x09, CHR 0x0C, CHR '' '', CHR ''/'', CHR ''>''])"

definition match_tag_name :: "string \<Rightarrow> string option" where
  \<comment> \<open>The group \<^verbatim>\<open>([a-z][^\r\n\t\f />]*)\<close> at the start of \<open>s\<close>; the star is greedy.\<close>
  "match_tag_name s =
     (case s of
        [] \<Rightarrow> None
      | c # cs \<Rightarrow> if isLetter c then Some (c # takeWhile isTagNameChar cs) else None)"

definition tag_regexp_exec :: "string \<Rightarrow> (string \<times> string) option" where
  \<comment> \<open>\<^verbatim>\<open>/^<\/?([a-z][^\r\n\t\f />]*)/i.exec(s)\<close>: \<open>None\<close> is \<^verbatim>\<open>null\<close>, otherwise the pair of
      \<^verbatim>\<open>match[0]\<close> and \<^verbatim>\<open>match[1]\<close>. When a slash follows the \<^verbatim>\<open><\<close> and no name follows
      the slash, matching without the optional slash fails too, since the slash is no letter.\<close>
  "tag_regexp_exec s =
     (if prefix ''</'' s then map_option (\<lambda>name. (''</'' @ name, name)) (match_tag_name (drop 2 s))
      else if prefix ''<'' s then map_option (\<lambda>name. (''<'' @ name, name)) (match_tag_name (drop 1 s))
      else None)"

subsection \<open>The syntax tree\<close>

text \<open>
  Modelled from the spec: the enumerations \<^verbatim>\<open>NodeTypes\<close> and \<^verbatim>\<open>ElementTypes\<close> are used by
  both source units and declared in neither; the spec asks of them a finite set of kinds
  with at least root, element, interpolation and text, and a single element kind.
\<close>

datatype NodeTypes = ROOT | ELEMENT | INTERPOLATION | TEXT

datatype ElementTypes = ElementTypes_ELEMENT

text \<open>
  A code generation node is attached to a syntax node by reference. The objects the
  node-transform plugins build for code generation are referred to by their address
  (\<open>CgRef\<close>); a syntax node used as code generation node is \<open>CgNode\<close>.
\<close>

datatype 'n codegen = CgUndefined | CgRef nat | CgNode 'n

text \<open>
  A node object, with the properties the two units read and write. The source builds the
  objects as untyped literals, so every property but \<^verbatim>\<open>type\<close> may be missing. The
  property \<^verbatim>\<open>helpers\<close> of a root is \<open>node_helpers\<close>; \<open>helpers\<close> names the map of the
  transform context below.
\<close>

datatype node =
  Node (type: NodeTypes) (tag: "string option") (tagType: "ElementTypes option")
    (children: "node list option") (node_helpers: "string list option")
    (codegenNode: "node codegen")

datatype error =
    TypeError
      \<comment> \<open>a property read on \<^verbatim>\<open>undefined\<close> or \<^verbatim>\<open>null\<close>\<close>
  | MissingClosingTag "string option"
      \<comment> \<open>the \<^verbatim>\<open>Error\<close> of \<^verbatim>\<open>parseElement\<close>, whose message ends with the tag\<close>

subsection \<open>parse.ts\<close>

datatype TagType = Start | End

record ParserContext =
  source :: string

definition createParserContext :: "string \<Rightarrow> ParserContext" where
  "createParserContext content = \<lparr>source = content\<rparr>"

definition createRoot :: "node list option \<Rightarrow> node" where
  "createRoot children' = Node ROOT None None children' (Some []) CgUndefined"

definition advanceBy :: "ParserContext \<Rightarrow> int \<Rightarrow> ParserContext" where
  "advanceBy context numberOfCharacters =
     context\<lparr>source := js_slice_from (source context) numberOfCharacters\<rparr>"

definition parseTextData :: "ParserContext \<Rightarrow> int \<Rightarrow> ParserContext \<times> string" where
  "parseTextData context len =
     (let rawText = js_slice (source context) 0 len;
          context = advanceBy context len
      in (context, rawText))"

definition parseInterpolation :: "ParserContext \<Rightarrow> ParserContext \<times> node option" where
  \<comment> \<open>The function has no \<^verbatim>\<open>return\<close>: its value is \<^verbatim>\<open>undefined\<close>.\<close>
  "parseInterpolation context =
     (let openDelimiter = ''{{'';
          closeDelimiter = ''}}'';
          closeIndex = js_indexOf (source context) closeDelimiter (int (length openDelimiter));
          context = advanceBy context 2;
          rawContentLength = closeIndex - int (length openDelimiter);
          rawContent = js_slice (source context) 0 rawContentLength;
          (context, preTrimContent) = parseTextData context (int (length rawContent));
          content = js_trim preTrimContent;
          context = advanceBy context (int (length closeDelimiter))
      in (context, None))"

definition startsWith :: "string \<Rightarrow> string \<Rightarrow> bool" where
  "startsWith source' searchString = js_startsWith source' searchString"

definition startsWithEndTagOpen :: "string \<Rightarrow> string option \<Rightarrow> error + bool" where
  \<comment> \<open>\<^verbatim>\<open>&&\<close> evaluates \<^verbatim>\<open>tag.length\<close> only when the source starts with \<^verbatim>\<open></\<close>; on a tag
      that is \<^verbatim>\<open>undefined\<close> the read throws.\<close>
  "startsWithEndTagOpen source' tag' =
     (if \<not> startsWith source' ''</'' then Inr False
      else case tag' of
             None \<Rightarrow> Inl TypeError
           | Some t \<Rightarrow>
               Inr (js_toLowerCase (js_slice source' 2 (2 + int (length t))) = js_toLowerCase t))"

fun isEnd_for :: "string \<Rightarrow> node option list \<Rightarrow> nat \<Rightarrow> error + bool" where
  \<comment> \<open>The loop \<^verbatim>\<open>for (let i = ancestors.length - 1; i >= 0; --i)\<close>; the third argument
      is \<open>i + 1\<close>. Falling out of the loop returns \<^verbatim>\<open>undefined\<close>, which the caller
      negates: it is \<open>False\<close> here.\<close>
  "isEnd_for s ancestors 0 = Inr False"
| "isEnd_for s ancestors (Suc i) =
     (case ancestors ! i of
        None \<Rightarrow> Inl TypeError
      | Some a \<Rightarrow>
          (case startsWithEndTagOpen s (tag a) of
             Inl e \<Rightarrow> Inl e
           | Inr found \<Rightarrow> if found then Inr True else isEnd_for s ancestors i))"

definition isEnd :: "ParserContext \<Rightarrow> node option list \<Rightarrow> error + bool" where
  \<comment> \<open>The function returns \<^verbatim>\<open>true\<close> inside its loop and nothing else: there is no test
      for an empty source.\<close>
  "isEnd context ancestors =
     (let s = source context
      in if js_startsWith s ''</'' then isEnd_for s ancestors (length ancestors)
         else Inr False)"

definition parseTag :: "ParserContext \<Rightarrow> TagType \<Rightarrow> error + ParserContext \<times> node option" where
  \<comment> \<open>Reading \<^verbatim>\<open>match[1]\<close> throws when the expression did not match.\<close>
  "parseTag context type' =
     (case tag_regexp_exec (source context) of
        None \<Rightarrow> Inl TypeError
      | Some (match0, match1) \<Rightarrow>
          (let tag' = match1;
               context = advanceBy context (int (length match0));
               context = advanceBy context 1
           in if type' = End then Inr (context, None)
              else (let tagType' = ElementTypes_ELEMENT
                    in Inr (context,
                         Some (Node ELEMENT (Some tag') (Some tagType') None None CgUndefined)))))"

definition optional_tag :: "node option \<Rightarrow> string option" where
  \<comment> \<open>\<^verbatim>\<open>element?.tag\<close>\<close>
  "optional_tag element = (case element of None \<Rightarrow> None | Some el \<Rightarrow> tag el)"

definition set_children :: "node option \<Rightarrow> node list option \<Rightarrow> node option" where
  \<comment> \<open>\<^verbatim>\<open>element && (element["children"] = children)\<close>\<close>
  "set_children element children' =
     (case element of
        None \<Rightarrow> None
      | Some (Node ty tg tt _ hs cg) \<Rightarrow> Some (Node ty tg tt children' hs cg))"

text \<open>
  \<^verbatim>\<open>parseChildren\<close> and \<^verbatim>\<open>parseElement\<close> call each other. The loop of \<^verbatim>\<open>parseChildren\<close> is
  \<open>parseChildren_while\<close>, with the body of \<^verbatim>\<open>parseElement\<close> written out at its call; the
  third argument is the accumulator \<^verbatim>\<open>nodes\<close>, the result the final context and
  accumulator. \<^verbatim>\<open>ancestors.push(element)\<close> before the inner call and \<^verbatim>\<open>ancestors.pop()\<close>
  after it are the argument \<open>ancestors @ [element]\<close> of the inner call. The value of
  \<^verbatim>\<open>node\<close> is assigned in the loop body and never read.
\<close>

partial_function (option) parseChildren_while ::
  "ParserContext \<Rightarrow> node option list \<Rightarrow> node list \<Rightarrow> (error + ParserContext \<times> node list) option"
where
  "parseChildren_while context ancestors nodes =
     (case isEnd context ancestors of
        Inl e \<Rightarrow> Some (Inl e)
      | Inr ended \<Rightarrow>
          if ended then Some (Inr (context, nodes))
          else
          (let s = source context
           in if startsWith s ''{{'' then
                (case parseInterpolation context of
                   (context, node) \<Rightarrow> parseChildren_while context ancestors nodes)
              else if js_index s 0 = Some (CHR ''<'') then
                (if js_index s 1 = Some (CHR ''/'') then
                   (if test_letter (js_index s 2) then
                      (case parseTag context End of
                         Inl e \<Rightarrow> Some (Inl e)
                       | Inr (context, _) \<Rightarrow> parseChildren_while context ancestors nodes)
                    else parseChildren_while context ancestors nodes)
                 else if test_letter (js_index s 1) then
                   (case parseTag context Start of
                      Inl e \<Rightarrow> Some (Inl e)
                    | Inr (context, element) \<Rightarrow>
                        Option.bind (parseChildren_while context (ancestors @ [element]) [])
                          (\<lambda>r. case r of
                                 Inl e \<Rightarrow> Some (Inl e)
                               | Inr (context, _) \<Rightarrow>
                                   (case startsWithEndTagOpen (source context) (optional_tag element) of
                                      Inl e \<Rightarrow> Some (Inl e)
                                    | Inr closing \<Rightarrow>
                                        if closing then
                                          (case parseTag context End of
                                             Inl e \<Rightarrow> Some (Inl e)
                                           | Inr (context, _) \<Rightarrow>
                                               parseChildren_while context ancestors nodes)
                                        else Some (Inl (MissingClosingTag (optional_tag element))))))
                 else parseChildren_while context ancestors nodes)
              else parseChildren_while context ancestors nodes))"

definition parseChildren ::
  "ParserContext \<Rightarrow> node option list \<Rightarrow> (error + ParserContext \<times> node list option) option"
where
  \<comment> \<open>The function ends after its loop with no \<^verbatim>\<open>return\<close>: its value is \<^verbatim>\<open>undefined\<close>,
      whatever the accumulator holds.\<close>
  "parseChildren context ancestors =
     (let nodes = []
      in case parseChildren_while context ancestors nodes of
           None \<Rightarrow> None
         | Some (Inl e) \<Rightarrow> Some (Inl e)
         | Some (Inr (context, nodes)) \<Rightarrow> Some (Inr (context, None)))"

definition parseElement ::
  "ParserContext \<Rightarrow> node option list \<Rightarrow> (error + ParserContext \<times> node option) option"
where
  "parseElement context ancestors =
     (case parseTag context Start of
        Inl e \<Rightarrow> Some (Inl e)
      | Inr (context, element) \<Rightarrow>
          (case parseChildren context (ancestors @ [element]) of
             None \<Rightarrow> None
           | Some (Inl e) \<Rightarrow> Some (Inl e)
           | Some (Inr (context, children')) \<Rightarrow>
               (case startsWithEndTagOpen (source context) (optional_tag element) of
                  Inl e \<Rightarrow> Some (Inl e)
                | Inr closing \<Rightarrow>
                    if closing then
                      (case parseTag context End of
                         Inl e \<Rightarrow> Some (Inl e)
                       | Inr (context, _) \<Rightarrow>
                           Some (Inr (context, set_children element children')))
                    else Some (Inl (MissingClosingTag (optional_tag element))))))"

definition baseParse :: "string \<Rightarrow> (error + node) option" where
  "baseParse content =
     (let context = createParserContext content
      in case parseChildren context [] of
           None \<Rightarrow> None
         | Some (Inl e) \<Rightarrow> Some (Inl e)
         | Some (Inr (context, children')) \<Rightarrow> Some (Inr (createRoot children')))"

subsection \<open>compile.ts: the transform pipeline\<close>

text \<open>
  Modelled from the spec: the identifier \<^verbatim>\<open>TO_DISPLAY_STRING\<close> is imported from a module
  that is not part of the source; the spec asks for a single named helper identifier.
\<close>

definition TO_DISPLAY_STRING :: string where
  "TO_DISPLAY_STRING = ''toDisplayString''"

text \<open>
  The \<^verbatim>\<open>Map\<close> of helper counts keeps its keys in insertion order: an association list
  with one entry for each key.
\<close>

definition map_get :: "(string \<times> nat) list \<Rightarrow> string \<Rightarrow> nat option" where
  "map_get m k = map_of m k"

fun map_set :: "(string \<times> nat) list \<Rightarrow> string \<Rightarrow> nat \<Rightarrow> (string \<times> nat) list" where
  "map_set [] k v = [(k, v)]"
| "map_set ((k', v') # m) k v = (if k' = k then (k, v) # m else (k', v') # map_set m k v)"

definition map_keys :: "(string \<times> nat) list \<Rightarrow> string list" where
  "map_keys m = map fst m"

text \<open>
  The node-transform plugins are not part of the source. A plugin is called with the node
  and the context and returns nothing or a cleanup function; a cleanup function is called
  with no argument. What a plugin or a cleanup may change is modelled as the
  \<open>TransformState\<close>: the helper counts of the context and \<open>env\<close>, the state the plugins
  own (the variables their closures share). A plugin reads the node and does not change
  the tree, and neither a plugin nor a cleanup throws. The map \<^verbatim>\<open>context.helpers\<close> is
  \<open>helpers (state context)\<close>, and the property \<^verbatim>\<open>nodeTransforms\<close> of the options is
  \<open>options_nodeTransforms\<close>.
\<close>

record 's TransformState =
  helpers :: "(string \<times> nat) list"
  env :: 's

type_synonym 's exitFn = "'s TransformState \<Rightarrow> 's TransformState"

type_synonym 's nodeTransform = "node \<Rightarrow> 's TransformState \<Rightarrow> 's TransformState \<times> 's exitFn option"

record 's TransformContext =
  root :: node
  nodeTransforms :: "'s nodeTransform list"
  state :: "'s TransformState"

record 's options =
  options_nodeTransforms :: "'s nodeTransform list option"

definition helper :: "string \<Rightarrow> 's TransformState \<Rightarrow> 's TransformState" where
  \<comment> \<open>The method \<^verbatim>\<open>context.helper(name)\<close>; \<^verbatim>\<open>get(name) || 0\<close> is 0 on a missing key.\<close>
  "helper name st =
     (let count = (case map_get (helpers st) name of None \<Rightarrow> 0 | Some c \<Rightarrow> c)
      in st\<lparr>helpers := map_set (helpers st) name (count + 1)\<rparr>)"

definition createTransformContext :: "node \<Rightarrow> 's options \<Rightarrow> 's \<Rightarrow> 's TransformContext" where
  \<comment> \<open>The third argument is the state the plugins own when the transform starts.\<close>
  "createTransformContext root' options' env' =
     \<lparr>root = root',
      nodeTransforms = (case options_nodeTransforms options' of None \<Rightarrow> [] | Some ts \<Rightarrow> ts),
      state = \<lparr>helpers = [], env = env'\<rparr>\<rparr>"

function nodeTransforms_for ::
  "'s nodeTransform list \<Rightarrow> node \<Rightarrow> nat \<Rightarrow> 's exitFn list \<Rightarrow> 's TransformState
     \<Rightarrow> 's exitFn list \<times> 's TransformState"
where
  \<comment> \<open>The loop \<^verbatim>\<open>for (let i = 0; i < nodeTransforms.length; i++)\<close> of \<^verbatim>\<open>traverseNode\<close>.\<close>
  "nodeTransforms_for nodeTransforms' node i exitFns st =
     (if i < length nodeTransforms' then
        (let transform' = nodeTransforms' ! i;
             (st, onExit) = transform' node st;
             exitFns = (case onExit of None \<Rightarrow> exitFns | Some f \<Rightarrow> exitFns @ [f])
         in nodeTransforms_for nodeTransforms' node (i + 1) exitFns st)
      else (exitFns, st))"
  by pat_completeness auto
termination
  by (relation "measure (\<lambda>(ts, node, i, exitFns, st). length ts - i)") auto

declare nodeTransforms_for.simps [simp del]

fun exitFns_while :: "'s exitFn list \<Rightarrow> nat \<Rightarrow> 's TransformState \<Rightarrow> 's TransformState" where
  \<comment> \<open>The loop \<^verbatim>\<open>while (i--) { exitFns[i]() }\<close>; the second argument is \<open>i\<close> before the
      test.\<close>
  "exitFns_while exitFns 0 st = st"
| "exitFns_while exitFns (Suc i) st = exitFns_while exitFns i ((exitFns ! i) st)"

text \<open>
  \<^verbatim>\<open>traverseNode\<close> and \<^verbatim>\<open>traverseChildren\<close> call each other; \<open>traverseChildren_forEach\<close>
  is the \<^verbatim>\<open>forEach\<close> over the children, and the body of \<^verbatim>\<open>traverseChildren\<close> is written
  out at its call in \<^verbatim>\<open>traverseNode\<close>. The type is read before the plugins run. Reading
  \<^verbatim>\<open>forEach\<close> on children that are \<^verbatim>\<open>undefined\<close> throws, and an exception leaves
  \<^verbatim>\<open>traverseNode\<close> before its cleanup loop.
\<close>

fun traverseNode :: "node \<Rightarrow> 's TransformContext \<Rightarrow> error + 's TransformContext"
  and traverseChildren_forEach :: "node list \<Rightarrow> 's TransformContext \<Rightarrow> error + 's TransformContext"
where
  "traverseNode (Node type' tag' tagType' children' helpers' codegenNode') context =
     (let node = Node type' tag' tagType' children' helpers' codegenNode';
          (exitFns, st) = nodeTransforms_for (nodeTransforms context) node 0 [] (state context);
          context = context\<lparr>state := st\<rparr>
      in case (case type' of
                 INTERPOLATION \<Rightarrow> Inr (context\<lparr>state := helper TO_DISPLAY_STRING (state context)\<rparr>)
               | ROOT \<Rightarrow>
                   (case children' of
                      None \<Rightarrow> Inl TypeError
                    | Some cs \<Rightarrow> traverseChildren_forEach cs context)
               | ELEMENT \<Rightarrow>
                   (case children' of
                      None \<Rightarrow> Inl TypeError
                    | Some cs \<Rightarrow> traverseChildren_forEach cs context)
               | TEXT \<Rightarrow> Inr context) of
           Inl e \<Rightarrow> Inl e
         | Inr context \<Rightarrow>
             Inr (context\<lparr>state := exitFns_while exitFns (length exitFns) (state context)\<rparr>))"
| "traverseChildren_forEach [] context = Inr context"
| "traverseChildren_forEach (node # nodes) context =
     (case traverseNode node context of
        Inl e \<Rightarrow> Inl e
      | Inr context \<Rightarrow> traverseChildren_forEach nodes context)"

definition traverseChildren :: "node \<Rightarrow> 's TransformContext \<Rightarrow> error + 's TransformContext" where
  "traverseChildren parent context =
     (case children parent of
        None \<Rightarrow> Inl TypeError
      | Some cs \<Rightarrow> traverseChildren_forEach cs context)"

definition js_array_index :: "'a list \<Rightarrow> nat \<Rightarrow> 'a option" where
  \<comment> \<open>\<^verbatim>\<open>xs[i]\<close>: out of range reads as \<^verbatim>\<open>undefined\<close>.\<close>
  "js_array_index xs i = (if i < length xs then Some (xs ! i) else None)"

definition set_codegenNode :: "node \<Rightarrow> node codegen \<Rightarrow> node" where
  "set_codegenNode n cg = (case n of Node ty tg tt cs hs _ \<Rightarrow> Node ty tg tt cs hs cg)"

definition set_helpers :: "node \<Rightarrow> string list \<Rightarrow> node" where
  "set_helpers n hs = (case n of Node ty tg tt cs _ cg \<Rightarrow> Node ty tg tt cs (Some hs) cg)"

definition createRootCodegen :: "node \<Rightarrow> 's TransformContext \<Rightarrow> error + node" where
  \<comment> \<open>\<^verbatim>\<open>children[0]\<close> throws on children that are \<^verbatim>\<open>undefined\<close>, and \<^verbatim>\<open>child.type\<close>
      throws on a child that is \<^verbatim>\<open>undefined\<close>. A code generation node is an object
      or \<^verbatim>\<open>undefined\<close>, so it is truthy when it is defined.\<close>
  "createRootCodegen root' context =
     (case children root' of
        None \<Rightarrow> Inl TypeError
      | Some children' \<Rightarrow>
          (let child = js_array_index children' 0
           in case child of
                None \<Rightarrow> Inl TypeError
              | Some c \<Rightarrow>
                  if type c = ELEMENT \<and> codegenNode c \<noteq> CgUndefined then
                    (let codegenNode' = codegenNode c
                     in Inr (set_codegenNode root' codegenNode'))
                  else Inr (set_codegenNode root' (CgNode c))))"

definition transform ::
  "node \<Rightarrow> 's options \<Rightarrow> 's \<Rightarrow> error + node \<times> 's TransformContext"
where
  \<comment> \<open>The source changes the root in place and returns nothing; the model returns the
      root and the context as they are when the function ends.\<close>
  "transform root' options' env' =
     (let context = createTransformContext root' options' env'
      in case traverseNode root' context of
           Inl e \<Rightarrow> Inl e
         | Inr context \<Rightarrow>
             (case createRootCodegen root' context of
                Inl e \<Rightarrow> Inl e
              | Inr root' \<Rightarrow>
                  (case node_helpers root' of
                     None \<Rightarrow> Inl TypeError
                   | Some hs \<Rightarrow>
                       Inr (set_helpers root' (hs @ map_keys (helpers (state context))),
                            context))))"

subsection \<open>Notions of the specification\<close>

definition equals_ignoring_case :: "string \<Rightarrow> string \<Rightarrow> bool" where
  \<comment> \<open>Two strings are equal under case-insensitive comparison: same length, and at each
      position the same character once lowered.\<close>
  "equals_ignoring_case a b = list_all2 (\<lambda>x y. toLowerCase_char x = toLowerCase_char y) a b"

definition isTagName :: "string \<Rightarrow> bool" where
  \<comment> \<open>A tag name: a letter, then characters other than whitespace, \<^verbatim>\<open>/\<close> and \<^verbatim>\<open>>\<close>.\<close>
  "isTagName name =
     (case name of [] \<Rightarrow> False | c # cs \<Rightarrow> isLetter c \<and> list_all isTagNameChar cs)"

text \<open>
  The plugins of a node run in list order: \<open>plugins_in_order\<close> threads the state through
  them from the first to the last and collects the cleanups they return, in the order of
  their plugins. \<open>cleanups_last_first\<close> runs a list of cleanups from its last to its first.
\<close>

fun plugins_in_order ::
  "'s nodeTransform list \<Rightarrow> node \<Rightarrow> 's TransformState \<Rightarrow> 's exitFn list \<times> 's TransformState"
where
  "plugins_in_order [] node st = ([], st)"
| "plugins_in_order (p # ps) node st =
     (let (st, onExit) = p node st;
          (exits, st) = plugins_in_order ps node st
      in ((case onExit of None \<Rightarrow> exits | Some f \<Rightarrow> f # exits), st))"

definition cleanups_last_first :: "'s exitFn list \<Rightarrow> 's TransformState \<Rightarrow> 's TransformState" where
  "cleanups_last_first exits st = fold (\<lambda>f s. f s) (rev exits) st"

definition visit_by_type :: "node \<Rightarrow> 's TransformContext \<Rightarrow> error + 's TransformContext" where
  \<comment> \<open>The \<^verbatim>\<open>switch (type)\<close> of \<^verbatim>\<open>traverseNode\<close>, between its two loops.\<close>
  "visit_by_type node context =
     (case type node of
        INTERPOLATION \<Rightarrow> Inr (context\<lparr>state := helper TO_DISPLAY_STRING (state context)\<rparr>)
      | ROOT \<Rightarrow> traverseChildren node context
      | ELEMENT \<Rightarrow> traverseChildren node context
      | TEXT \<Rightarrow> Inr context)"

fun visited_interpolations :: "node \<Rightarrow> nat" where
  \<comment> \<open>The number of interpolation nodes the walk visits: it descends into the children
      of roots and elements only.\<close>
  "visited_interpolations (Node type' tag' tagType' children' helpers' codegenNode') =
     (case type' of
        INTERPOLATION \<Rightarrow> 1
      | TEXT \<Rightarrow> 0
      | _ \<Rightarrow> (case children' of None \<Rightarrow> 0 | Some cs \<Rightarrow> sum_list (map visited_interpolations cs)))"

definition helper_count :: "'s TransformState \<Rightarrow> string \<Rightarrow> nat" where
  \<comment> \<open>The usage count of a helper, \<^verbatim>\<open>helpers.get(name) || 0\<close>.\<close>
  "helper_count st name = (case map_get (helpers st) name of None \<Rightarrow> 0 | Some c \<Rightarrow> c)"

definition preserves_count :: "string \<Rightarrow> 's nodeTransform \<Rightarrow> bool" where
  \<comment> \<open>Neither the plugin nor the cleanup it returns changes the count of the helper.\<close>
  "preserves_count name p =
     (\<forall>node st. helper_count (fst (p node st)) name = helper_count st name
        \<and> (\<forall>f. snd (p node st) = Some f \<longrightarrow> (\<forall>s. helper_count (f s) name = helper_count s name)))"

subsection \<open>Example inputs\<close>

definition divElement :: node where
  \<comment> \<open>The object \<^verbatim>\<open>parseTag\<close> returns for \<^verbatim>\<open><div>\<close>.\<close>
  "divElement = Node ELEMENT (Some ''div'') (Some ElementTypes_ELEMENT) None None CgUndefined"

definition textChild :: node where
  "textChild = Node TEXT None None None None CgUndefined"

definition interpolationNode :: node where
  "interpolationNode = Node INTERPOLATION None None None None CgUndefined"

definition emptyRoot :: node where
  "emptyRoot = createRoot (Some [])"

definition rootWithText :: node where
  "rootWithText = createRoot (Some [textChild])"

definition divWithCodegen :: node where
  \<comment> \<open>An element to which a plugin has attached the code generation object at address 7.\<close>
  "divWithCodegen =
     Node ELEMENT (Some ''div'') (Some ElementTypes_ELEMENT) (Some []) None (CgRef 7)"

definition nestedTree :: node where
  \<comment> \<open>A root over a \<^verbatim>\<open>div\<close> that holds an interpolation, a \<^verbatim>\<open>span\<close> with an
      interpolation, and a text.\<close>
  "nestedTree =
     createRoot (Some [Node ELEMENT (Some ''div'') (Some ElementTypes_ELEMENT)
       (Some [interpolationNode,
              Node ELEMENT (Some ''span'') (Some ElementTypes_ELEMENT)
                (Some [interpolationNode]) None CgUndefined,
              textChild]) None CgUndefined])"

definition noOptions :: "unit options" where
  \<comment> \<open>The default \<^verbatim>\<open>options = {}\<close> of \<^verbatim>\<open>transform\<close>.\<close>
  "noOptions = \<lparr>options_nodeTransforms = None\<rparr>"

text \<open>
  Plugins that append to a shared log when they are entered and when their cleanup runs,
  and a plugin that registers the display-string helper itself.
\<close>

datatype event = Enter nat | Exit nat

definition logging_plugin :: "nat \<Rightarrow> event list nodeTransform" where
  "logging_plugin k node st =
     (st\<lparr>env := env st @ [Enter k]\<rparr>, Some (\<lambda>s. s\<lparr>env := env s @ [Exit k]\<rparr>))"

definition silent_plugin :: "nat \<Rightarrow> event list nodeTransform" where
  \<comment> \<open>A plugin that returns no cleanup.\<close>
  "silent_plugin k node st = (st\<lparr>env := env st @ [Enter k]\<rparr>, None)"

definition loggingOptions :: "event list options" where
  "loggingOptions = \<lparr>options_nodeTransforms = Some [logging_plugin 0, silent_plugin 1]\<rparr>"

definition registering_plugin :: "unit nodeTransform" where
  \<comment> \<open>\<^verbatim>\<open>(node, context) => { context.helper(TO_DISPLAY_STRING) }\<close>\<close>
  "registering_plugin node st = (helper TO_DISPLAY_STRING st, None)"

definition registeringOptions :: "unit options" where
  "registeringOptions = \<lparr>options_nodeTransforms = Some [registering_plugin]\<rparr>"

section \<open>Properties\<close>

subsection \<open>The string operations\<close>

lemma js_slice_nonneg:
  "0 \<le> a \<Longrightarrow> a \<le> b \<Longrightarrow> js_slice s a b = take (nat b - nat a) (drop (nat a) s)"
  apply (simp add: js_slice_def Let_def)
  apply (simp add: min_def nat_diff_distrib)
  done

lemma js_slice_2: "js_slice s 2 (2 + int (length t)) = take (length t) (drop 2 s)"
  by (simp add: js_slice_nonneg nat_add_distrib)

lemma js_slice_from_nat: "js_slice_from s (int n) = drop n s"
  by (simp add: js_slice_from_def js_slice_def Let_def min_def)

lemma advanceBy_nat: "advanceBy ctx (int n) = ctx\<lparr>source := drop n (source ctx)\<rparr>"
  by (simp add: advanceBy_def js_slice_from_nat)

lemma map_eq_iff_list_all2: "(map f xs = map f ys) = list_all2 (\<lambda>x y. f x = f y) xs ys"
  by (induction xs arbitrary: ys) (auto simp: list_all2_Cons1)

text \<open>\<open>find_from\<close> returns the offset of the first occurrence, when there is one.\<close>

lemma find_from_sound:
  "find_from pat s k \<noteq> - 1 \<Longrightarrow>
   \<exists>i. find_from pat s k = int (k + i) \<and> i \<le> length s \<and> prefix pat (drop i s)
       \<and> (\<forall>j<i. \<not> prefix pat (drop j s))"
proof (induction s arbitrary: k)
  case Nil
  then show ?case by (auto split: if_splits)
next
  case (Cons c cs)
  show ?case
  proof (cases "prefix pat (c # cs)")
    case True
    then show ?thesis by (intro exI [of _ 0]) simp
  next
    case False
    with Cons.prems have "find_from pat cs (Suc k) \<noteq> - 1" by simp
    from Cons.IH [OF this] obtain i where i:
      "find_from pat cs (Suc k) = int (Suc k + i)" "i \<le> length cs" "prefix pat (drop i cs)"
      "\<forall>j<i. \<not> prefix pat (drop j cs)" by blast
    have "\<forall>j<Suc i. \<not> prefix pat (drop j (c # cs))"
      using False i(4) by (auto simp: less_Suc_eq_0_disj)
    with False i show ?thesis by (intro exI [of _ "Suc i"]) simp
  qed
qed

lemma find_from_complete:
  "prefix pat (drop i s) \<Longrightarrow> i \<le> length s \<Longrightarrow> find_from pat s k \<noteq> - 1"
proof (induction s arbitrary: i k)
  case Nil
  then show ?case by simp
next
  case (Cons c cs)
  show ?case
  proof (cases "prefix pat (c # cs)")
    case True
    then show ?thesis by simp
  next
    case False
    with Cons.prems obtain i' where "i = Suc i'" by (cases i) auto
    with Cons.prems Cons.IH [of i' "Suc k"] False show ?thesis by simp
  qed
qed

lemma js_indexOf_nat:
  "n \<le> length s \<Longrightarrow> js_indexOf s pat (int n) = find_from pat (drop n s) n"
  by (simp add: js_indexOf_def Let_def min_def)

lemma closer_after_opener:
  assumes "prefix ''{{'' s" and "sublist ''}}'' s"
  shows "\<exists>i. i \<le> length (drop 2 s) \<and> prefix ''}}'' (drop i (drop 2 s))"
proof -
  from assms(2) obtain ps ss where s: "s = ps @ ''}}'' @ ss" by (auto simp: sublist_def)
  from assms(1) obtain r where r: "s = ''{{'' @ r" by (auto simp: prefix_def)
  have "2 \<le> length ps"
  proof (rule ccontr)
    assume "\<not> 2 \<le> length ps"
    then consider "ps = []" | c where "ps = [c]"
      by (cases ps; cases "tl ps") auto
    then show False using s r by cases auto
  qed
  then have "drop (length ps - 2) (drop 2 s) = ''}}'' @ ss" using s by simp
  moreover have "length ps - 2 \<le> length (drop 2 s)" using s by simp
  ultimately show ?thesis by (intro exI [of _ "length ps - 2"]) simp
qed

lemma not_sublist_before_first:
  assumes "\<forall>j<length raw. \<not> prefix pat (drop j (raw @ pat @ rest))" and "pat \<noteq> []"
  shows "\<not> sublist pat (raw @ butlast pat)"
proof
  assume "sublist pat (raw @ butlast pat)"
  then obtain ps ss where d: "raw @ butlast pat = ps @ pat @ ss" by (auto simp: sublist_def)
  then have "length raw + length (butlast pat) = length ps + length pat + length ss"
    by (metis length_append add.assoc)
  with assms(2) have lt: "length ps < length raw" by (cases pat rule: rev_cases) auto
  have "raw @ pat @ rest = (raw @ butlast pat) @ [last pat] @ rest"
    using assms(2) by simp
  also have "\<dots> = ps @ pat @ ss @ [last pat] @ rest" using d by simp
  finally have e: "raw @ pat @ rest = ps @ (pat @ ss @ [last pat] @ rest)" .
  have "drop (length ps) (raw @ pat @ rest) = pat @ ss @ [last pat] @ rest"
    by (subst e) simp
  then have "prefix pat (drop (length ps) (raw @ pat @ rest))" by simp
  with assms(1) lt show False by blast
qed

subsection \<open>Closing-tag matching\<close>

text \<open>
  Claim C9. For every source string \<open>s\<close> and tag name \<open>t\<close>, \<^verbatim>\<open>startsWithEndTagOpen(s, t)\<close>
  returns true if and only if \<open>s\<close> starts with \<^verbatim>\<open></\<close> and the \<open>length t\<close> characters that
  follow \<^verbatim>\<open></\<close> equal \<open>t\<close> under case-insensitive comparison. (When fewer characters
  follow, the lengths differ and the result is false.)
\<close>

theorem startsWithEndTagOpen_case_insensitive:
  "startsWithEndTagOpen s (Some t) =
     Inr (prefix ''</'' s \<and> equals_ignoring_case (take (length t) (drop 2 s)) t)"
  by (simp add: startsWithEndTagOpen_def startsWith_def js_startsWith_def js_slice_2
      js_toLowerCase_def equals_ignoring_case_def map_eq_iff_list_all2)

theorem startsWithEndTagOpen_case_insensitive_witness:
  "startsWithEndTagOpen ''</DiV>'' (Some ''div'') = Inr True
   \<and> startsWithEndTagOpen ''</dive>'' (Some ''DIV'') = Inr True
   \<and> startsWithEndTagOpen ''</di'' (Some ''div'') = Inr False
   \<and> startsWithEndTagOpen ''<div>'' (Some ''div'') = Inr False"
  unfolding startsWithEndTagOpen_case_insensitive by code_simp

lemma startsWithEndTagOpen_prefix_name:
  "startsWithEndTagOpen (''</'' @ t @ rest) (Some t) = Inr True"
  by (simp add: startsWithEndTagOpen_def startsWith_def js_startsWith_def js_slice_2)

lemma startsWithEndTagOpen_total:
  "\<exists>b. startsWithEndTagOpen s (Some t) = Inr b"
  by (auto simp: startsWithEndTagOpen_def)

lemma isEnd_for_found:
  assumes "n \<le> length ancestors"
    and "\<forall>a \<in> set (take n ancestors). \<exists>nd tg. a = Some nd \<and> tag nd = Some tg"
    and "\<exists>el. Some el \<in> set (take n ancestors) \<and> startsWithEndTagOpen s (tag el) = Inr True"
  shows "isEnd_for s ancestors n = Inr True"
  using assms
proof (induction n)
  case 0
  then show ?case by simp
next
  case (Suc n)
  then have n: "n < length ancestors" by simp
  then have tk: "take (Suc n) ancestors = take n ancestors @ [ancestors ! n]"
    by (simp add: take_Suc_conv_app_nth)
  from Suc.prems(2) tk obtain nd tg where nd: "ancestors ! n = Some nd" "tag nd = Some tg"
    by auto
  obtain b where b: "startsWithEndTagOpen s (Some tg) = Inr b"
    using startsWithEndTagOpen_total by blast
  show ?case
  proof (cases b)
    case True
    then show ?thesis using nd b by simp
  next
    case False
    from Suc.prems(3) obtain el where el:
      "Some el \<in> set (take (Suc n) ancestors)" "startsWithEndTagOpen s (tag el) = Inr True"
      by blast
    have "Some el \<noteq> ancestors ! n" using el(2) nd b False by auto
    with el(1) tk have "Some el \<in> set (take n ancestors)" by auto
    with el(2) have 3:
      "\<exists>el. Some el \<in> set (take n ancestors) \<and> startsWithEndTagOpen s (tag el) = Inr True"
      by blast
    have 2: "\<forall>a \<in> set (take n ancestors). \<exists>nd tg. a = Some nd \<and> tag nd = Some tg"
      using Suc.prems(2) tk by auto
    have "isEnd_for s ancestors n = Inr True"
      using Suc.IH [OF _ 2 3] n by simp
    then show ?thesis using nd b False by simp
  qed
qed

lemma isEnd_found:
  assumes "prefix ''</'' (source ctx)"
    and "\<forall>a \<in> set ancestors. \<exists>nd tg. a = Some nd \<and> tag nd = Some tg"
    and "Some el \<in> set ancestors" and "startsWithEndTagOpen (source ctx) (tag el) = Inr True"
  shows "isEnd ctx ancestors = Inr True"
  using assms isEnd_for_found [of "length ancestors" ancestors "source ctx"]
  by (auto simp: isEnd_def js_startsWith_def)

lemma isEnd_innermost:
  assumes "prefix ''</'' (source ctx)" and "startsWithEndTagOpen (source ctx) (tag el) = Inr True"
  shows "isEnd ctx (outer @ [Some el]) = Inr True"
  using assms by (simp add: isEnd_def js_startsWith_def)

lemma takeWhile_name:
  "list_all P cs \<Longrightarrow> rest = [] \<or> \<not> P (hd rest) \<Longrightarrow> takeWhile P (cs @ rest) = cs"
  by (induction cs) (auto simp: takeWhile_eq_Nil_iff neq_Nil_conv)

lemma isLetter_not_slash: "isLetter c \<Longrightarrow> c \<noteq> CHR ''/''"
  by (auto simp: isLetter_def)

lemma isTagName_prefix: "isTagName (t @ ext) \<Longrightarrow> t \<noteq> [] \<Longrightarrow> isTagName t"
  by (cases t) (auto simp: isTagName_def)

lemma parseTag_closing:
  assumes "isTagName name" and "rest = [] \<or> \<not> isTagNameChar (hd rest)"
  shows "parseTag \<lparr>source = ''</'' @ name @ rest\<rparr> End = Inr (\<lparr>source = drop 1 rest\<rparr>, None)"
proof -
  from assms(1) obtain c cs where name: "name = c # cs" "isLetter c" "list_all isTagNameChar cs"
    by (auto simp: isTagName_def split: list.splits)
  have m: "match_tag_name (name @ rest) = Some name"
    using name takeWhile_name [OF name(3) assms(2)] by (simp add: match_tag_name_def)
  have e: "tag_regexp_exec (''</'' @ name @ rest) = Some (''</'' @ name, name)"
    by (simp add: tag_regexp_exec_def m)
  have a: "advanceBy (advanceBy \<lparr>source = ''</'' @ name @ rest\<rparr> (int (length (''</'' @ name)))) 1
           = \<lparr>source = drop 1 rest\<rparr>"
    using advanceBy_nat [of "\<lparr>source = ''</'' @ name @ rest\<rparr>" "length (''</'' @ name)"]
      advanceBy_nat [of "\<lparr>source = rest\<rparr>" 1]
    by simp
  have src: "source \<lparr>source = ''</'' @ name @ rest\<rparr> = ''</'' @ name @ rest"
    by simp
  show ?thesis
    unfolding parseTag_def src e
    apply (simp only: option.case prod.case Let_def a)
    apply simp
    done
qed

lemma parseTag_opening:
  assumes "isTagName name" and "rest = [] \<or> \<not> isTagNameChar (hd rest)"
  shows "parseTag \<lparr>source = ''<'' @ name @ rest\<rparr> Start =
           Inr (\<lparr>source = drop 1 rest\<rparr>,
                Some (Node ELEMENT (Some name) (Some ElementTypes_ELEMENT) None None CgUndefined))"
proof -
  from assms(1) obtain c cs where name: "name = c # cs" "isLetter c" "list_all isTagNameChar cs"
    by (auto simp: isTagName_def split: list.splits)
  have m: "match_tag_name (name @ rest) = Some name"
    using name takeWhile_name [OF name(3) assms(2)] by (simp add: match_tag_name_def)
  have e: "tag_regexp_exec (''<'' @ name @ rest) = Some (''<'' @ name, name)"
    using isLetter_not_slash [OF name(2)] m by (simp add: tag_regexp_exec_def name(1))
  have a: "advanceBy (advanceBy \<lparr>source = ''<'' @ name @ rest\<rparr> (int (length (''<'' @ name)))) 1
           = \<lparr>source = drop 1 rest\<rparr>"
    using advanceBy_nat [of "\<lparr>source = ''<'' @ name @ rest\<rparr>" "length (''<'' @ name)"]
      advanceBy_nat [of "\<lparr>source = rest\<rparr>" 1]
    by simp
  have src: "source \<lparr>source = ''<'' @ name @ rest\<rparr> = ''<'' @ name @ rest"
    by simp
  show ?thesis
    unfolding parseTag_def src e
    apply (simp only: option.case prod.case Let_def a)
    apply simp
    done
qed

lemma parseChildren_at_closing_tag:
  assumes "isEnd ctx ancestors = Inr True"
  shows "parseChildren ctx ancestors = Some (Inr (ctx, None))"
  apply (simp add: parseChildren_def)
  apply (subst parseChildren_while.simps)
  apply (simp add: assms)
  done

text \<open>
  Claim C10. Closing-tag matching compares a prefix of the closing tag's name only. For an
  open element with tag \<open>t\<close> and a remaining source that begins with \<^verbatim>\<open></\<close> and a tag name
  \<open>t @ ext\<close> that has \<open>t\<close> as a prefix (the name ends at \<open>rest\<close>): the ancestor check of
  \<^verbatim>\<open>isEnd\<close> succeeds, the closing-tag check of \<^verbatim>\<open>parseElement\<close> succeeds, and \<^verbatim>\<open>parseTag\<close>
  consumes the whole longer closing tag with the character after it. So \<^verbatim>\<open>parseElement\<close>
  accepts the closing tag of a longer name as the closer of \<open>t\<close>, with no error.
\<close>

theorem longer_closing_tag_accepted:
  assumes "t \<noteq> []" and "isTagName (t @ ext)"
    and "rest = [] \<or> \<not> isTagNameChar (hd rest)"
    and "Some el \<in> set ancestors" and "tag el = Some t"
    and "\<forall>a \<in> set ancestors. \<exists>nd tg. a = Some nd \<and> tag nd = Some tg"
  shows "isEnd \<lparr>source = ''</'' @ t @ ext @ rest\<rparr> ancestors = Inr True
       \<and> startsWithEndTagOpen (''</'' @ t @ ext @ rest) (Some t) = Inr True
       \<and> parseTag \<lparr>source = ''</'' @ t @ ext @ rest\<rparr> End = Inr (\<lparr>source = drop 1 rest\<rparr>, None)
       \<and> parseElement \<lparr>source = ''<'' @ t @ ''>'' @ ''</'' @ t @ ext @ rest\<rparr> outer =
            Some (Inr (\<lparr>source = drop 1 rest\<rparr>,
                       Some (Node ELEMENT (Some t) (Some ElementTypes_ELEMENT) None None CgUndefined)))"
proof -
  let ?closing = "''</'' @ t @ ext @ rest"
  let ?element = "Node ELEMENT (Some t) (Some ElementTypes_ELEMENT) None None CgUndefined"
  have sw: "startsWithEndTagOpen ?closing (Some t) = Inr True"
    by (rule startsWithEndTagOpen_prefix_name)
  have ie: "isEnd \<lparr>source = ?closing\<rparr> ancestors = Inr True"
    using isEnd_found [of "\<lparr>source = ?closing\<rparr>" ancestors el] assms(4,5,6) sw by simp
  have pt: "parseTag \<lparr>source = ?closing\<rparr> End = Inr (\<lparr>source = drop 1 rest\<rparr>, None)"
    using parseTag_closing [OF assms(2,3)] by simp
  have gt: "\<not> isTagNameChar (CHR ''>'')" by (simp add: isTagNameChar_def)
  have po: "parseTag \<lparr>source = ''<'' @ t @ ''>'' @ ?closing\<rparr> Start =
              Inr (\<lparr>source = ?closing\<rparr>, Some ?element)"
    using parseTag_opening [OF isTagName_prefix [OF assms(2,1)], of "''>'' @ ?closing"] gt by simp
  have pc: "parseChildren \<lparr>source = ?closing\<rparr> (outer @ [Some ?element]) =
              Some (Inr (\<lparr>source = ?closing\<rparr>, None))"
    using isEnd_innermost [of "\<lparr>source = ?closing\<rparr>" ?element outer] sw
    by (intro parseChildren_at_closing_tag) simp
  have pe: "parseElement \<lparr>source = ''<'' @ t @ ''>'' @ ?closing\<rparr> outer =
              Some (Inr (\<lparr>source = drop 1 rest\<rparr>, Some ?element))"
    unfolding parseElement_def po
    apply (simp only: sum.case prod.case pc option.case)
    apply (simp only: ParserContext.select_convs optional_tag_def option.case node.sel sw
        sum.case if_True pt prod.case set_children_def node.case)
    done
  show ?thesis using ie sw pt pe by simp
qed

theorem longer_closing_tag_accepted_witness:
  "''div'' \<noteq> [] \<and> isTagName (''div'' @ ''x'')
   \<and> (''>'' = [] \<or> \<not> isTagNameChar (hd ''>''))
   \<and> Some divElement \<in> set [Some divElement] \<and> tag divElement = Some ''div''
   \<and> isEnd \<lparr>source = ''</divx>''\<rparr> [Some divElement] = Inr True
   \<and> startsWithEndTagOpen ''</divx>'' (Some ''div'') = Inr True
   \<and> parseTag \<lparr>source = ''</divx>''\<rparr> End = Inr (\<lparr>source = []\<rparr>, None)
   \<and> parseElement \<lparr>source = ''<div></divx>''\<rparr> [] = Some (Inr (\<lparr>source = []\<rparr>, Some divElement))"
proof -
  have h1: "''div'' \<noteq> []" by simp
  have h2: "isTagName (''div'' @ ''x'')"
    by (simp add: isTagName_def isLetter_def isTagNameChar_def)
  have h3: "''>'' = [] \<or> \<not> isTagNameChar (hd ''>'')" by (simp add: isTagNameChar_def)
  have h4: "Some divElement \<in> set [Some divElement]" by simp
  have h5: "tag divElement = Some ''div''" by (simp add: divElement_def)
  have h6: "\<forall>a \<in> set [Some divElement]. \<exists>nd tg. a = Some nd \<and> tag nd = Some tg"
    by (simp add: divElement_def)
  from longer_closing_tag_accepted [OF h1 h2 h3 h4 h5 h6, of "[]"] h1 h2 h3 h4 h5
  show ?thesis by (simp add: divElement_def)
qed

subsection \<open>Interpolation parsing\<close>

text \<open>
  Claim C3. For every parser context whose source begins with the opener \<^verbatim>\<open>{{\<close> and contains
  the closer \<^verbatim>\<open>}}\<close>, the source is the opener, a raw span, the first closer and a rest;
  \<^verbatim>\<open>parseInterpolation\<close> advances the cursor past the opener, then past the raw span, whose
  length is the index of the closer minus the length of the opener, then past the closer,
  which leaves the rest; and it returns no node (the trimmed text is computed and dropped).
\<close>

theorem parseInterpolation_consumes_site:
  assumes "startsWith (source ctx) ''{{''" and "sublist ''}}'' (source ctx)"
  shows "\<exists>raw rest.
           source ctx = ''{{'' @ raw @ ''}}'' @ rest
         \<and> \<not> sublist ''}}'' (raw @ ''}'')
         \<and> js_indexOf (source ctx) ''}}'' 2 - 2 = int (length raw)
         \<and> parseInterpolation ctx
              = (advanceBy (advanceBy (advanceBy ctx 2) (int (length raw))) 2, None)
         \<and> parseInterpolation ctx = (ctx\<lparr>source := rest\<rparr>, None)"
proof -
  define s where "s = source ctx"
  define r where "r = drop 2 s"
  have pre: "prefix ''{{'' s" using assms(1) by (simp add: startsWith_def js_startsWith_def s_def)
  then have s: "s = ''{{'' @ r" by (auto simp: prefix_def r_def)
  from closer_after_opener [OF pre] assms(2) obtain i0 where
    "i0 \<le> length r" "prefix ''}}'' (drop i0 r)" by (auto simp: s_def r_def)
  then have "find_from ''}}'' r 2 \<noteq> - 1" by (rule find_from_complete [rotated])
  from find_from_sound [OF this] obtain i where i:
    "find_from ''}}'' r 2 = int (2 + i)" "i \<le> length r" "prefix ''}}'' (drop i r)"
    "\<forall>j<i. \<not> prefix ''}}'' (drop j r)" by blast
  have len: "2 \<le> length s" by (subst s) simp
  have idx: "js_indexOf s ''}}'' 2 = int (2 + i)"
    using js_indexOf_nat [OF len, of "''}}''"] i(1) by (simp add: r_def)
  define raw where "raw = take i r"
  define rest where "rest = drop (i + 2) r"
  from i(3) obtain z where z: "drop i r = ''}}'' @ z" by (auto simp: prefix_def)
  have "rest = drop 2 (drop i r)" by (simp add: rest_def add.commute)
  then have "z = rest" by (simp add: z)
  then have "r = take i r @ ''}}'' @ rest" using z by (metis append_take_drop_id)
  then have split: "r = raw @ ''}}'' @ rest" by (simp add: raw_def)
  have lraw: "length raw = i" using i(2) by (simp add: raw_def)
  have first: "\<not> sublist ''}}'' (raw @ ''}'')"
    using not_sublist_before_first [of raw "''}}''" rest] i(4) split lraw by simp
  have c1: "advanceBy ctx 2 = ctx\<lparr>source := r\<rparr>"
    using advanceBy_nat [of ctx 2] by (simp add: r_def s_def)
  have sl: "js_slice r 0 (int i) = raw"
    by (simp add: js_slice_nonneg raw_def)
  have c2: "advanceBy (ctx\<lparr>source := r\<rparr>) (int i) = ctx\<lparr>source := drop i r\<rparr>"
    by (simp add: advanceBy_nat)
  have c3: "advanceBy (ctx\<lparr>source := drop i r\<rparr>) 2 = ctx\<lparr>source := rest\<rparr>"
    using advanceBy_nat [of "ctx\<lparr>source := drop i r\<rparr>" 2] by (simp add: rest_def add.commute)
  have run: "parseInterpolation ctx = (ctx\<lparr>source := rest\<rparr>, None)"
    using idx [unfolded s_def]
    by (simp add: parseInterpolation_def Let_def parseTextData_def c1 sl lraw c2 c3)
  have steps: "advanceBy (advanceBy (advanceBy ctx 2) (int (length raw))) 2 = ctx\<lparr>source := rest\<rparr>"
    by (simp add: c1 lraw c2 c3)
  show ?thesis
    using s split first idx run steps lraw
    by (intro exI [of _ raw] exI [of _ rest]) (simp add: s_def)
qed

theorem parseInterpolation_consumes_site_witness:
  "startsWith (source \<lparr>source = ''{{ msg }}abc''\<rparr>) ''{{''
   \<and> sublist ''}}'' (source \<lparr>source = ''{{ msg }}abc''\<rparr>)
   \<and> (\<exists>raw. ''{{ msg }}abc'' = ''{{'' @ raw @ ''}}'' @ ''abc'')
   \<and> parseInterpolation \<lparr>source = ''{{ msg }}abc''\<rparr> = (\<lparr>source = ''abc''\<rparr>, None)"
proof -
  let ?ctx = "\<lparr>source = ''{{ msg }}abc''\<rparr>"
  have h1: "startsWith (source ?ctx) ''{{''"
    by (simp add: startsWith_def js_startsWith_def)
  have "''{{ msg }}abc'' = ''{{ msg '' @ ''}}'' @ ''abc''" by simp
  then have h2: "sublist ''}}'' (source ?ctx)"
    unfolding sublist_def ParserContext.select_convs by blast
  have e: "parseInterpolation ?ctx = (\<lparr>source = ''abc''\<rparr>, None)"
    by code_simp
  from parseInterpolation_consumes_site [OF h1 h2] obtain raw rest where
    d: "source ?ctx = ''{{'' @ raw @ ''}}'' @ rest"
    and pr: "parseInterpolation ?ctx = (?ctx\<lparr>source := rest\<rparr>, None)" by blast
  from pr e have "rest = ''abc''" by simp
  with d have "''{{ msg }}abc'' = ''{{'' @ raw @ ''}}'' @ ''abc''" by simp
  then have "\<exists>raw. ''{{ msg }}abc'' = ''{{'' @ raw @ ''}}'' @ ''abc''" by blast
  with h1 h2 e show ?thesis by blast
qed

subsection \<open>The child-parsing loop\<close>

text \<open>
  The loop, with the call of \<^verbatim>\<open>parseElement\<close> in place of its body: the definition of
  \<open>parseElement\<close> is the one the loop runs.
\<close>

lemma parseChildren_while_parseElement:
  "parseChildren_while ctx ancestors nodes =
     (case isEnd ctx ancestors of
        Inl e \<Rightarrow> Some (Inl e)
      | Inr ended \<Rightarrow>
          if ended then Some (Inr (ctx, nodes))
          else if startsWith (source ctx) ''{{'' then
            parseChildren_while (fst (parseInterpolation ctx)) ancestors nodes
          else if js_index (source ctx) 0 = Some (CHR ''<'') then
            (if js_index (source ctx) 1 = Some (CHR ''/'') then
               (if test_letter (js_index (source ctx) 2) then
                  (case parseTag ctx End of
                     Inl e \<Rightarrow> Some (Inl e)
                   | Inr (ctx', _) \<Rightarrow> parseChildren_while ctx' ancestors nodes)
                else parseChildren_while ctx ancestors nodes)
             else if test_letter (js_index (source ctx) 1) then
               (case parseElement ctx ancestors of
                  None \<Rightarrow> None
                | Some (Inl e) \<Rightarrow> Some (Inl e)
                | Some (Inr (ctx', node)) \<Rightarrow> parseChildren_while ctx' ancestors nodes)
             else parseChildren_while ctx ancestors nodes)
          else parseChildren_while ctx ancestors nodes)"
  apply (subst parseChildren_while.simps)
  apply (simp add: parseElement_def parseChildren_def Let_def
      split: sum.splits prod.splits option.splits Option.bind_splits)
  done

lemma isEnd_exhausted: "source ctx = [] \<Longrightarrow> isEnd ctx ancestors = Inr False"
  by (simp add: isEnd_def js_startsWith_def)

text \<open>
  On an exhausted source \<^verbatim>\<open>isEnd\<close> does not report the end, no branch of the loop body
  applies and nothing is consumed: the loop repeats in the same state, so a call that
  returns or throws started on a source that was not exhausted.
\<close>

lemma parseChildren_while_returns_nonempty:
  assumes "parseChildren_while ctx ancestors nodes = Some y"
  shows "source ctx \<noteq> []"
  apply (rule parseChildren_while.raw_induct [where P = "\<lambda>c a n y. source c \<noteq> []", OF _ assms])
  apply (rule notI)
  apply (simp add: isEnd_exhausted startsWith_def js_startsWith_def js_index_def)
  done

lemma parseChildren_while_exhausted:
  "parseChildren_while \<lparr>source = []\<rparr> ancestors nodes = None"
  using parseChildren_while_returns_nonempty [of "\<lparr>source = []\<rparr>" ancestors nodes]
  by (cases "parseChildren_while \<lparr>source = []\<rparr> ancestors nodes") auto

text \<open>
  Claim C1 says that \<^verbatim>\<open>baseParse\<close> terminates on every template, the loop of
  \<^verbatim>\<open>parseChildren\<close> stopping when the source is exhausted. The code does not: on the empty
  template the call of \<^verbatim>\<open>baseParse\<close> neither returns nor throws.
\<close>

theorem baseParse_empty_never_returns: "baseParse [] = None"
  by (simp add: baseParse_def createParserContext_def parseChildren_def
      parseChildren_while_exhausted)

lemma parseTag_div:
  "parseTag \<lparr>source = ''<div>''\<rparr> Start = Inr (\<lparr>source = []\<rparr>, Some divElement)"
  by (simp add: parseTag_def tag_regexp_exec_def match_tag_name_def isLetter_def
      isTagNameChar_def advanceBy_def js_slice_from_def js_slice_def divElement_def Let_def)

text \<open>
  Claim C4 says that parsing \<^verbatim>\<open><div>\<close> alone fails with the missing-closing-tag error that
  names \<^verbatim>\<open>div\<close>. The code does not reach that check: after the opening tag the source is
  exhausted, the inner loop never ends, and \<^verbatim>\<open>baseParse\<close> neither returns nor throws.
\<close>

theorem baseParse_unclosed_never_returns: "baseParse ''<div>'' = None"
  apply (simp add: baseParse_def createParserContext_def parseChildren_def)
  apply (subst parseChildren_while.simps)
  apply (simp add: parseTag_div parseChildren_while_exhausted isEnd_def startsWith_def
      js_startsWith_def js_index_def test_letter_def isLetter_def)
  done

text \<open>The accumulator of the loop is never changed.\<close>

lemma parseChildren_while_accumulator:
  assumes "parseChildren_while ctx ancestors nodes = Some y"
  shows "\<forall>c ns. y = Inr (c, ns) \<longrightarrow> ns = nodes"
  apply (rule parseChildren_while.raw_induct
      [where P = "\<lambda>c a n y. \<forall>c' ns. y = Inr (c', ns) \<longrightarrow> ns = n", OF _ assms])
  apply (auto simp: Let_def split: if_splits sum.splits prod.splits Option.bind_splits)
  done

text \<open>
  With no ancestor \<^verbatim>\<open>isEnd\<close> never holds, so the outermost loop ends by an exception
  only: \<^verbatim>\<open>baseParse\<close> returns a root for no template.
\<close>

lemma parseChildren_while_top_level:
  assumes "parseChildren_while ctx ancestors nodes = Some y"
  shows "ancestors = [] \<longrightarrow> (\<exists>e. y = Inl e)"
  apply (rule parseChildren_while.raw_induct
      [where P = "\<lambda>c a n y. a = [] \<longrightarrow> (\<exists>e. y = Inl e)", OF _ assms])
  apply (auto simp: isEnd_def Let_def split: if_splits sum.splits prod.splits Option.bind_splits)
  done

lemma baseParse_never_succeeds: "baseParse content \<noteq> Some (Inr root')"
  using parseChildren_while_top_level [of "createParserContext content" "[]" "[]"]
  by (auto simp: baseParse_def parseChildren_def split: option.splits sum.splits)

text \<open>
  Claim C2 says that the result of \<^verbatim>\<open>parseChildren\<close> is an empty sequence of nodes whenever
  it returns. The code has no \<^verbatim>\<open>return\<close> after the loop: the call made for the children of
  \<^verbatim>\<open><div></div>\<close> returns \<^verbatim>\<open>undefined\<close>, not the empty accumulator.
\<close>

theorem parseChildren_returns_undefined:
  "parseChildren \<lparr>source = ''</div>''\<rparr> [Some divElement]
     = Some (Inr (\<lparr>source = ''</div>''\<rparr>, None))"
proof -
  have "startsWithEndTagOpen (''</'' @ ''div'' @ ''>'') (Some ''div'') = Inr True"
    by (rule startsWithEndTagOpen_prefix_name)
  then have "isEnd \<lparr>source = ''</div>''\<rparr> ([] @ [Some divElement]) = Inr True"
    by (intro isEnd_innermost) (simp_all add: divElement_def)
  then show ?thesis
    by (intro parseChildren_at_closing_tag) simp
qed

subsection \<open>The tree walk\<close>

lemma nodeTransforms_for_in_order:
  "nodeTransforms_for ts node i acc st =
     (let (exits, st') = plugins_in_order (drop i ts) node st in (acc @ exits, st'))"
proof (induction ts node i acc st rule: nodeTransforms_for.induct)
  case (1 ts node i acc st)
  show ?case
  proof (cases "i < length ts")
    case True
    then have d: "drop i ts = ts ! i # drop (Suc i) ts" by (simp add: Cons_nth_drop_Suc)
    obtain st1 onExit where p: "(ts ! i) node st = (st1, onExit)" by (cases "(ts ! i) node st")
    show ?thesis
      apply (subst nodeTransforms_for.simps)
      using True p "1.IH" [OF True refl p [symmetric] refl refl]
      apply (simp add: d Let_def split: prod.splits option.splits)
      done
  next
    case False
    then show ?thesis by (subst nodeTransforms_for.simps) simp
  qed
qed

lemma exitFns_while_rev:
  "n \<le> length exits \<Longrightarrow> exitFns_while exits n st = fold (\<lambda>f s. f s) (rev (take n exits)) st"
  by (induction n arbitrary: st) (simp_all add: take_Suc_conv_app_nth)

lemma exitFns_while_all:
  "exitFns_while exits (length exits) st = cleanups_last_first exits st"
  by (simp add: exitFns_while_rev cleanups_last_first_def)

lemma traverseNode_in_order:
  "traverseNode node ctx =
     (let (exits, st) = plugins_in_order (nodeTransforms ctx) node (state ctx)
      in case visit_by_type node (ctx\<lparr>state := st\<rparr>) of
           Inl e \<Rightarrow> Inl e
         | Inr ctx' \<Rightarrow> Inr (ctx'\<lparr>state := cleanups_last_first exits (state ctx')\<rparr>))"
  by (cases node)
    (simp add: nodeTransforms_for_in_order exitFns_while_all
      visit_by_type_def traverseChildren_def Let_def
      split: prod.splits NodeTypes.splits sum.splits option.splits)

text \<open>
  Claim C7. For every node, \<^verbatim>\<open>traverseNode\<close> runs the registered plugins on that node in
  list order, then handles the node by its type, and afterwards runs the cleanups the
  plugins returned in reverse order of registration, the last one first. (When the walk
  of the children throws, the exception leaves the function and no cleanup runs.)
\<close>

theorem traverseNode_plugins_then_cleanups_reversed:
  "traverseNode node ctx =
     (let (exits, st) = plugins_in_order (nodeTransforms ctx) node (state ctx)
      in case visit_by_type node (ctx\<lparr>state := st\<rparr>) of
           Inl e \<Rightarrow> Inl e
         | Inr ctx' \<Rightarrow> Inr (ctx'\<lparr>state := cleanups_last_first exits (state ctx')\<rparr>))"
  by (rule traverseNode_in_order)

theorem traverseNode_plugins_then_cleanups_reversed_witness:
  "traverseNode textChild
     \<lparr>root = textChild,
      nodeTransforms = [logging_plugin 0, silent_plugin 1, logging_plugin 2],
      state = \<lparr>helpers = [], env = []\<rparr>\<rparr>
   = Inr \<lparr>root = textChild,
          nodeTransforms = [logging_plugin 0, silent_plugin 1, logging_plugin 2],
          state = \<lparr>helpers = [], env = [Enter 0, Enter 1, Enter 2, Exit 2, Exit 0]\<rparr>\<rparr>"
  unfolding traverseNode_plugins_then_cleanups_reversed
  by (simp add: logging_plugin_def silent_plugin_def visit_by_type_def textChild_def
      cleanups_last_first_def)

lemma map_get_map_set: "map_get (map_set m k v) k' = (if k' = k then Some v else map_get m k')"
  by (induction m) (auto simp: map_get_def)

lemma helper_count_helper:
  "helper_count (helper name st) name' =
     (if name' = name then helper_count st name + 1 else helper_count st name')"
  by (simp add: helper_count_def helper_def map_get_map_set Let_def)

lemma helper_count_empty: "helper_count \<lparr>helpers = [], env = e\<rparr> name = 0"
  by (simp add: helper_count_def map_get_def)

lemma plugins_in_order_count:
  assumes "\<forall>p \<in> set ps. preserves_count name p"
    and "plugins_in_order ps node st = (exits, st')"
  shows "helper_count st' name = helper_count st name
         \<and> (\<forall>f \<in> set exits. \<forall>s. helper_count (f s) name = helper_count s name)"
  using assms
proof (induction ps arbitrary: st exits st')
  case Nil
  then show ?case by simp
next
  case (Cons p ps)
  obtain st1 onExit where p: "p node st = (st1, onExit)" by (cases "p node st")
  obtain exits2 st2 where r: "plugins_in_order ps node st1 = (exits2, st2)"
    by (cases "plugins_in_order ps node st1")
  from Cons.prems(1) have pp: "preserves_count name p"
    and rest: "\<forall>p \<in> set ps. preserves_count name p"
    by simp_all
  from pp p have c1: "helper_count st1 name = helper_count st name"
    and ex: "\<forall>f. onExit = Some f \<longrightarrow> (\<forall>s. helper_count (f s) name = helper_count s name)"
    unfolding preserves_count_def by (metis fst_conv, metis snd_conv)
  from Cons.IH [OF rest r] have c2: "helper_count st2 name = helper_count st1 name"
    and ex2: "\<forall>f \<in> set exits2. \<forall>s. helper_count (f s) name = helper_count s name" by simp_all
  from Cons.prems(2) p r
  have e: "exits = (case onExit of None \<Rightarrow> exits2 | Some f \<Rightarrow> f # exits2)" "st' = st2"
    by simp_all
  show ?case using c1 c2 ex ex2 e by (auto split: option.splits)
qed

lemma cleanups_count:
  "\<forall>f \<in> set exits. \<forall>s. helper_count (f s) name = helper_count s name \<Longrightarrow>
   helper_count (cleanups_last_first exits st) name = helper_count st name"
  unfolding cleanups_last_first_def
  by (induction exits arbitrary: st) simp_all

lemma forEach_count:
  assumes "\<forall>c \<in> set cs. \<forall>(ctx :: 's TransformContext) ctx'. traverseNode c ctx = Inr ctx' \<longrightarrow>
                 (\<forall>p \<in> set (nodeTransforms ctx). preserves_count name p) \<longrightarrow>
                 nodeTransforms ctx' = nodeTransforms ctx
                 \<and> helper_count (state ctx') name = helper_count (state ctx) name + k c"
    and "traverseChildren_forEach cs (ctx :: 's TransformContext) = Inr ctx'"
    and "\<forall>p \<in> set (nodeTransforms ctx). preserves_count name p"
  shows "nodeTransforms ctx' = nodeTransforms ctx
         \<and> helper_count (state ctx') name = helper_count (state ctx) name + sum_list (map k cs)"
  using assms
proof (induction cs arbitrary: ctx)
  case Nil
  then show ?case by simp
next
  case (Cons c cs)
  from Cons.prems(2) obtain ctx1 where c1: "traverseNode c ctx = Inr ctx1"
    and c2: "traverseChildren_forEach cs ctx1 = Inr ctx'"
    by (auto split: sum.splits)
  have "\<forall>(ctx :: 's TransformContext) ctx'. traverseNode c ctx = Inr ctx' \<longrightarrow>
                 (\<forall>p \<in> set (nodeTransforms ctx). preserves_count name p) \<longrightarrow>
                 nodeTransforms ctx' = nodeTransforms ctx
                 \<and> helper_count (state ctx') name = helper_count (state ctx) name + k c"
    using Cons.prems(1) by simp
  from this [rule_format, OF c1] Cons.prems(3) have s1: "nodeTransforms ctx1 = nodeTransforms ctx"
    "helper_count (state ctx1) name = helper_count (state ctx) name + k c"
    by simp_all
  have g1: "\<forall>p \<in> set (nodeTransforms ctx1). preserves_count name p"
    using s1(1) Cons.prems(3) by simp
  have h: "\<forall>c \<in> set cs. \<forall>(ctx :: 's TransformContext) ctx'. traverseNode c ctx = Inr ctx' \<longrightarrow>
                 (\<forall>p \<in> set (nodeTransforms ctx). preserves_count name p) \<longrightarrow>
                 nodeTransforms ctx' = nodeTransforms ctx
                 \<and> helper_count (state ctx') name = helper_count (state ctx) name + k c"
    using Cons.prems(1) by simp
  from Cons.IH [OF h c2 g1] s1 show ?case by simp
qed

lemma traverseNode_count:
  assumes "traverseNode node (ctx :: 's TransformContext) = Inr ctx'"
    and "\<forall>p \<in> set (nodeTransforms ctx). preserves_count TO_DISPLAY_STRING p"
  shows "nodeTransforms ctx' = nodeTransforms ctx
         \<and> helper_count (state ctx') TO_DISPLAY_STRING
             = helper_count (state ctx) TO_DISPLAY_STRING + visited_interpolations node"
  using assms
proof (induction node arbitrary: ctx ctx')
  case (Node ty tg tt cs hs cg)
  let ?node = "Node ty tg tt cs hs cg"
  let ?n = TO_DISPLAY_STRING
  obtain exits st where pl: "plugins_in_order (nodeTransforms ctx) ?node (state ctx) = (exits, st)"
    by (cases "plugins_in_order (nodeTransforms ctx) ?node (state ctx)")
  from plugins_in_order_count [OF Node.prems(2) pl]
  have st: "helper_count st ?n = helper_count (state ctx) ?n"
    and ex: "\<forall>f \<in> set exits. \<forall>s. helper_count (f s) ?n = helper_count s ?n" by simp_all
  from Node.prems(1) pl obtain c2 where
    v: "visit_by_type ?node (ctx\<lparr>state := st\<rparr>) = Inr c2"
    and r: "ctx' = c2\<lparr>state := cleanups_last_first exits (state c2)\<rparr>"
    by (auto simp: traverseNode_in_order split: sum.splits)
  have fin: "helper_count (state ctx') ?n = helper_count (state c2) ?n"
    "nodeTransforms ctx' = nodeTransforms c2"
    using r cleanups_count [OF ex] by simp_all
  have mid: "nodeTransforms c2 = nodeTransforms ctx
             \<and> helper_count (state c2) ?n = helper_count st ?n + visited_interpolations ?node"
  proof (cases "ty = INTERPOLATION \<or> ty = TEXT")
    case True
    then show ?thesis using v by (auto simp: visit_by_type_def helper_count_helper)
  next
    case False
    then have ty: "ty = ROOT \<or> ty = ELEMENT" by (cases ty) auto
    with v obtain l where l: "cs = Some l"
      and fe: "traverseChildren_forEach l (ctx\<lparr>state := st\<rparr>) = Inr c2"
      by (auto simp: visit_by_type_def traverseChildren_def split: option.splits)
    have g: "\<forall>p \<in> set (nodeTransforms (ctx\<lparr>state := st\<rparr>)). preserves_count ?n p"
      using Node.prems(2) by simp
    have "nodeTransforms c2 = nodeTransforms (ctx\<lparr>state := st\<rparr>)
          \<and> helper_count (state c2) ?n
              = helper_count (state (ctx\<lparr>state := st\<rparr>)) ?n + sum_list (map visited_interpolations l)"
    proof (rule forEach_count [OF _ fe g])
      show "\<forall>c \<in> set l. \<forall>(ctx :: 's TransformContext) ctx'. traverseNode c ctx = Inr ctx' \<longrightarrow>
                 (\<forall>p \<in> set (nodeTransforms ctx). preserves_count ?n p) \<longrightarrow>
                 nodeTransforms ctx' = nodeTransforms ctx
                 \<and> helper_count (state ctx') ?n = helper_count (state ctx) ?n + visited_interpolations c"
      proof (intro ballI allI impI)
        fix c and ctx ctx' :: "'s TransformContext"
        assume "c \<in> set l" "traverseNode c ctx = Inr ctx'"
          "\<forall>p \<in> set (nodeTransforms ctx). preserves_count ?n p"
        then show "nodeTransforms ctx' = nodeTransforms ctx
                 \<and> helper_count (state ctx') ?n = helper_count (state ctx) ?n + visited_interpolations c"
          using Node.IH(1) [of l c ctx ctx'] l by simp
      qed
    qed
    then show ?thesis using ty l by auto
  qed
  show ?case using fin mid st by simp
qed

text \<open>
  Claim C6 says that, for every tree, the count of the display-string helper after
  \<^verbatim>\<open>transform\<close> equals the number of interpolation nodes visited by the walk. The plugins
  receive the context and may register helpers themselves: with a plugin that registers
  the display-string helper, the count on a root over one text node is 2, and the walk
  visits no interpolation node.
\<close>

theorem transform_display_string_count_counterexample:
  "transform rootWithText registeringOptions ()
     = Inr (Node ROOT None None (Some [textChild]) (Some [TO_DISPLAY_STRING]) (CgNode textChild),
            \<lparr>root = rootWithText, nodeTransforms = [registering_plugin],
             state = \<lparr>helpers = [(TO_DISPLAY_STRING, 2)], env = ()\<rparr>\<rparr>)
   \<and> helper_count \<lparr>helpers = [(TO_DISPLAY_STRING, 2)], env = ()\<rparr> TO_DISPLAY_STRING = 2
   \<and> visited_interpolations rootWithText = 0"
  by (simp add: transform_def rootWithText_def registeringOptions_def createTransformContext_def
      createRoot_def traverseNode_in_order visit_by_type_def traverseChildren_def
      registering_plugin_def textChild_def helper_def map_get_def map_keys_def helper_count_def
      createRootCodegen_def js_array_index_def set_codegenNode_def set_helpers_def Let_def
      cleanups_last_first_def)

text \<open>
  Claim C6, amended. For every tree and every list of plugins of which none, and no cleanup
  of which, changes the count of the display-string helper: when \<^verbatim>\<open>transform\<close> returns,
  that count in the transform context equals the number of interpolation nodes visited by
  the walk, at any depth (0, with no entry in the map, when none is visited).
\<close>

theorem transform_display_string_count:
  assumes "\<forall>ts p. options_nodeTransforms options' = Some ts \<longrightarrow> p \<in> set ts \<longrightarrow>
             preserves_count TO_DISPLAY_STRING p"
    and "transform root' options' env' = Inr (root'', ctx')"
  shows "helper_count (state ctx') TO_DISPLAY_STRING = visited_interpolations root'"
proof -
  let ?c0 = "createTransformContext root' options' env'"
  have p: "\<forall>p \<in> set (nodeTransforms ?c0). preserves_count TO_DISPLAY_STRING p"
    using assms(1)
    by (cases "options_nodeTransforms options'") (simp_all add: createTransformContext_def)
  from assms(2) have t: "traverseNode root' ?c0 = Inr ctx'"
    by (auto simp: transform_def Let_def split: sum.splits option.splits)
  have "helper_count (state ?c0) TO_DISPLAY_STRING = 0"
    by (simp add: createTransformContext_def helper_count_empty)
  with traverseNode_count [OF t p] show ?thesis by simp
qed

lemma logging_plugin_preserves: "preserves_count name (logging_plugin k)"
  by (simp add: preserves_count_def logging_plugin_def helper_count_def)

lemma silent_plugin_preserves: "preserves_count name (silent_plugin k)"
  by (simp add: preserves_count_def silent_plugin_def helper_count_def)

lemma nestedTree_transform:
  "\<exists>r c. transform nestedTree loggingOptions [] = Inr (r, c)"
  by (simp add: transform_def nestedTree_def loggingOptions_def createTransformContext_def
      createRoot_def traverseNode_in_order visit_by_type_def traverseChildren_def
      logging_plugin_def silent_plugin_def interpolationNode_def textChild_def
      createRootCodegen_def js_array_index_def set_codegenNode_def set_helpers_def Let_def)

theorem transform_display_string_count_witness:
  "visited_interpolations nestedTree = 2
   \<and> (\<exists>r c. transform nestedTree loggingOptions [] = Inr (r, c)
          \<and> helper_count (state c) TO_DISPLAY_STRING = 2)"
proof -
  have p: "\<forall>ts p. options_nodeTransforms loggingOptions = Some ts \<longrightarrow> p \<in> set ts \<longrightarrow>
       preserves_count TO_DISPLAY_STRING p"
    by (auto simp: loggingOptions_def logging_plugin_preserves silent_plugin_preserves)
  obtain r c where t: "transform nestedTree loggingOptions [] = Inr (r, c)"
    using nestedTree_transform by blast
  have v: "visited_interpolations nestedTree = 2"
    by (simp add: nestedTree_def createRoot_def interpolationNode_def textChild_def)
  from transform_display_string_count [OF p t] v t show ?thesis by simp
qed

subsection \<open>The root code generation node\<close>

lemma set_codegenNode_sel:
  "codegenNode (set_codegenNode n cg) = cg"
  "type (set_codegenNode n cg) = type n"
  "tag (set_codegenNode n cg) = tag n"
  "tagType (set_codegenNode n cg) = tagType n"
  "children (set_codegenNode n cg) = children n"
  "node_helpers (set_codegenNode n cg) = node_helpers n"
  by (cases n, simp add: set_codegenNode_def)+

lemma traverseNode_no_children:
  "children root' = Some [] \<Longrightarrow> \<exists>c. traverseNode root' context = Inr c"
  by (cases root') (simp add: Let_def split: prod.splits NodeTypes.splits)

text \<open>
  Claim C5. Applying \<^verbatim>\<open>transform\<close>, hence \<^verbatim>\<open>createRootCodegen\<close>, to a root whose children
  list is empty fails at the first child: \<^verbatim>\<open>children[0]\<close> is out of bounds, it reads as
  \<^verbatim>\<open>undefined\<close>, and the read of its \<^verbatim>\<open>type\<close> throws; no guard is in the way.
\<close>

theorem transform_empty_children_fails:
  assumes "children root' = Some []"
  shows "createRootCodegen root' context = Inl TypeError
         \<and> transform root' options' env' = Inl TypeError"
proof -
  have cg: "\<And>c. createRootCodegen root' c = Inl TypeError"
    using assms by (simp add: createRootCodegen_def js_array_index_def)
  obtain c where "traverseNode root' (createTransformContext root' options' env') = Inr c"
    using traverseNode_no_children [OF assms] by blast
  then show ?thesis
    by (simp add: transform_def cg)
qed

theorem transform_empty_children_fails_witness:
  "children emptyRoot = Some []
   \<and> createRootCodegen emptyRoot (createTransformContext emptyRoot noOptions ()) = Inl TypeError
   \<and> transform emptyRoot noOptions () = Inl TypeError"
  using transform_empty_children_fails
    [of emptyRoot "createTransformContext emptyRoot noOptions ()" noOptions "()"]
  by (simp add: emptyRoot_def createRoot_def)

text \<open>
  Claim C8. On a root whose first child is an element that carries a code generation node,
  \<^verbatim>\<open>createRootCodegen\<close> sets the root's code generation node to that same reference (the
  address is passed on, no object is built); on a root whose first child is no such
  element, or carries none, the root's code generation node is the child itself. Nothing
  else of the root changes.
\<close>

theorem createRootCodegen_first_child:
  assumes "children root' = Some (child # rest)"
  shows "\<exists>r. createRootCodegen root' context = Inr r
           \<and> codegenNode r =
               (if type child = ELEMENT \<and> codegenNode child \<noteq> CgUndefined
                then codegenNode child else CgNode child)
           \<and> (\<forall>a. type child = ELEMENT \<and> codegenNode child = CgRef a \<longrightarrow> codegenNode r = CgRef a)
           \<and> type r = type root' \<and> tag r = tag root' \<and> tagType r = tagType root'
           \<and> children r = children root' \<and> node_helpers r = node_helpers root'"
  using assms by (simp add: createRootCodegen_def js_array_index_def set_codegenNode_sel)

theorem createRootCodegen_first_child_witness:
  "children (createRoot (Some [divWithCodegen])) = Some (divWithCodegen # [])
   \<and> (\<exists>r. createRootCodegen (createRoot (Some [divWithCodegen]))
              (createTransformContext (createRoot (Some [divWithCodegen])) noOptions ()) = Inr r
          \<and> codegenNode r = CgRef 7 \<and> children r = Some [divWithCodegen])"
proof -
  have c: "children (createRoot (Some [divWithCodegen])) = Some (divWithCodegen # [])"
    by (simp add: createRoot_def)
  have sel: "type divWithCodegen = ELEMENT" "codegenNode divWithCodegen = CgRef 7"
    by (simp_all add: divWithCodegen_def)
  show ?thesis
    using createRootCodegen_first_child
      [OF c, of "createTransformContext (createRoot (Some [divWithCodegen])) noOptions ()"] sel c
    by auto
qed

end
